theory Spec2Isabelle
  imports Complex_Main "HOL-Library.Multiset" "HOL-Library.Sublist" "HOL-Library.Word"
begin

section \<open>The sentence classifier driver \<open>conv_net_sentence.py\<close>\<close>

text \<open>
  The development embeds the pure parts of \<open>src/conv_net_sentence.py\<close>: the sentence
  encoder \<open>sent2indices\<close>, the corpus reader \<open>read_corpus\<close>, the fold generator
  \<open>kfold\<close>, the relabelling loop of the prediction branch, the \<open>save\<close> closure with
  the matching load sequence, and the cross-validation loop. Python integers are \<open>int\<close>,
  Python 2 byte strings are \<open>string\<close>, a dictionary is a map, an exception is the
  \<open>Inl\<close> branch of a sum.

  Line 87 of the source has one opening and two closing parentheses
  (\<open>np.arange(n_samples, dtype=np.int32))\<close>), which the compiler refuses. \<open>kfold\<close> is
  the function as it is written; \<open>kfold_repaired\<close> is lines 87 to 99 read without the
  extra parenthesis, the only reading under which the rest of the function can be traced.
\<close>

subsection \<open>Exceptions\<close>

datatype error =
  IndexError | LookupError | ValueError | TypeError | StopIteration | SyntaxError | LoadError

subsection \<open>\<open>sent2indices\<close> (lines 23 to 41)\<close>

text \<open>
  The loop \<open>for word in sent\<close> with the list \<open>x\<close> as its state. A word outside the
  dictionary leaves \<open>x\<close> alone and the loop goes on; a known word is appended while
  \<open>len(x) < max_l\<close>, and the first known word met with \<open>len(x) \<ge> max_l\<close> leaves the loop
  (\<open>break\<close>).
\<close>

fun sent_loop :: "'w list \<Rightarrow> ('w \<rightharpoonup> int) \<Rightarrow> int \<Rightarrow> int list \<Rightarrow> int list" where
  "sent_loop [] word_index max_l x = x"
| "sent_loop (word # sent) word_index max_l x =
     (case word_index word of
        None \<Rightarrow> sent_loop sent word_index max_l x
      | Some i \<Rightarrow>
          if int (length x) < max_l
          then sent_loop sent word_index max_l (x @ [i])
          else x)"

text \<open>
  \<open>[0] * k\<close> is the empty list for \<open>k \<le> 0\<close>, which is \<open>replicate (nat k) 0\<close>.
\<close>

definition sent2indices :: "'w list \<Rightarrow> ('w \<rightharpoonup> int) \<Rightarrow> int \<Rightarrow> int \<Rightarrow> int list" where
  "sent2indices sent word_index max_l pad =
     (let x = sent_loop sent word_index max_l (replicate (nat pad) 0);
          rpad = replicate (nat (max 0 (max_l + 2 * pad - int (length x)))) 0
      in x @ rpad)"

subsection \<open>Python 2 byte-string operations used by the driver\<close>

text \<open>
  \<open>s.split(sep)\<close> for a one-character separator: the fields between the separators,
  \<open>[[]]\<close> for the empty string. The result is never empty, so the last branch of the
  \<open>case\<close> is never taken.
\<close>

fun split_sep :: "char \<Rightarrow> string \<Rightarrow> string list" where
  "split_sep sep [] = [[]]"
| "split_sep sep (c # cs) =
     (if c = sep then [] # split_sep sep cs
      else (case split_sep sep cs of
              f # fs \<Rightarrow> (c # f) # fs
            | [] \<Rightarrow> [[c]]))"

fun join_sep :: "char \<Rightarrow> string list \<Rightarrow> string" where
  "join_sep sep [] = []"
| "join_sep sep [f] = f"
| "join_sep sep (f # g # fs) = f @ sep # join_sep sep (g # fs)"

definition tab :: char where
  "tab = CHR 0x09"

text \<open>
  \<open>isspace\<close> of the C locale: space, and the control characters 9 to 13.
\<close>

definition is_space :: "char \<Rightarrow> bool" where
  "is_space c = (let k = (of_char c :: nat) in k = 32 \<or> (9 \<le> k \<and> k \<le> 13))"

definition strip :: "string \<Rightarrow> string" where
  "strip s = rev (dropWhile is_space (rev (dropWhile is_space s)))"

definition lower_char :: "char \<Rightarrow> char" where
  "lower_char c =
     (let k = (of_char c :: nat) in if 65 \<le> k \<and> k \<le> 90 then char_of (k + 32) else c)"

definition lower :: "string \<Rightarrow> string" where
  "lower s = map lower_char s"

text \<open>
  Where a subscript lands in a sequence of \<open>len\<close> elements: \<open>i\<close> itself from the
  front, \<open>len + i\<close> for a negative \<open>i\<close>, and nowhere (\<open>IndexError\<close>) outside
  \<open>-len \<le> i < len\<close>. \<open>get_item\<close> is the read \<open>xs[i]\<close>, \<open>set_item\<close> the store
  \<open>xs[i] = v\<close>.
\<close>

definition position :: "nat \<Rightarrow> int \<Rightarrow> nat option" where
  "position len i =
     (if 0 \<le> i \<and> i < int len then Some (nat i)
      else if i < 0 \<and> - int len \<le> i then Some (nat (int len + i))
      else None)"

definition get_item :: "'a list \<Rightarrow> int \<Rightarrow> error + 'a" where
  "get_item xs i =
     (case position (length xs) i of
        None \<Rightarrow> Inl IndexError
      | Some k \<Rightarrow> Inr (xs ! k))"

definition set_item :: "'a list \<Rightarrow> int \<Rightarrow> 'a \<Rightarrow> error + 'a list" where
  "set_item xs i v =
     (case position (length xs) i of
        None \<Rightarrow> Inl IndexError
      | Some k \<Rightarrow> Inr (xs[k := v]))"

subsection \<open>\<open>read_corpus\<close> (lines 44 to 64)\<close>

text \<open>
  The file is the list of its lines, as \<open>for line in f\<close> yields them. The text field is
  handed to \<open>sent2indices\<close> as it is, a string, and \<open>for word in sent\<close> over a string
  yields its characters as one-character strings: \<open>chars_of\<close>. The array returned is
  the list of its rows.
\<close>

definition chars_of :: "string \<Rightarrow> string list" where
  "chars_of text = map (\<lambda>c. [c]) text"

fun read_corpus ::
  "string list \<Rightarrow> (string \<rightharpoonup> int) \<Rightarrow> int \<Rightarrow> int \<Rightarrow> bool \<Rightarrow> int \<Rightarrow> error + int list list" where
  "read_corpus [] word_index max_l pad lower_flag textField = Inr []"
| "read_corpus (line # f) word_index max_l pad lower_flag textField =
     (let fields = split_sep tab (strip line) in
      case get_item fields textField of
        Inl e \<Rightarrow> Inl e
      | Inr text0 \<Rightarrow>
          (let text = (if lower_flag then lower text0 else text0);
               sent = sent2indices (chars_of text) word_index max_l pad
           in case read_corpus f word_index max_l pad lower_flag textField of
                Inl e \<Rightarrow> Inl e
              | Inr corpus \<Rightarrow> Inr (sent # corpus)))"

text \<open>
  The reader the documentation of \<open>sent2indices\<close> asks for (\<open>sent: list of words\<close>), and
  the one the training branch uses at line 181: the text field split at white space.
  \<open>split_ws\<close> is \<open>text.split()\<close>, \<open>read_corpus_words\<close> is \<open>read_corpus\<close> with
  \<open>sent2indices\<close> applied to these tokens. It is the reading of the specification, kept
  for comparison with the code.
\<close>

fun split_ws_acc :: "string \<Rightarrow> string \<Rightarrow> string list" where
  "split_ws_acc cur [] = (if cur = [] then [] else [rev cur])"
| "split_ws_acc cur (c # cs) =
     (if is_space c
      then (if cur = [] then split_ws_acc [] cs else rev cur # split_ws_acc [] cs)
      else split_ws_acc (c # cur) cs)"

definition split_ws :: "string \<Rightarrow> string list" where
  "split_ws text = split_ws_acc [] text"

fun read_corpus_words ::
  "string list \<Rightarrow> (string \<rightharpoonup> int) \<Rightarrow> int \<Rightarrow> int \<Rightarrow> bool \<Rightarrow> int \<Rightarrow> error + int list list" where
  "read_corpus_words [] word_index max_l pad lower_flag textField = Inr []"
| "read_corpus_words (line # f) word_index max_l pad lower_flag textField =
     (let fields = split_sep tab (strip line) in
      case get_item fields textField of
        Inl e \<Rightarrow> Inl e
      | Inr text0 \<Rightarrow>
          (let text = (if lower_flag then lower text0 else text0);
               sent = sent2indices (split_ws text) word_index max_l pad
           in case read_corpus_words f word_index max_l pad lower_flag textField of
                Inl e \<Rightarrow> Inl e
              | Inr corpus \<Rightarrow> Inr (sent # corpus)))"

subsection \<open>\<open>kfold\<close> (lines 76 to 99)\<close>

text \<open>
  The generator is the list of the values it yields. An item is what one \<open>yield\<close>
  produces: the bare index array of line 89, or the pair of arrays of line 98.
  The arrays are \<open>int32\<close> arrays (\<open>dtype=np.int32\<close>), so their elements are
  32-bit words, read as signed integers by \<open>sint\<close>.
  \<open>np.random.shuffle\<close> reorders the array with the process-wide random source; it is
  the parameter \<open>shuffle\<close>.
\<close>

type_synonym int32 = "32 word"

datatype fold_item =
    is_bare: Indices (indices_of: "int32 list")
  | is_pair: TrainTest (train_of: "int32 list") (test_of: "int32 list")

text \<open>
  \<open>np.arange(n_samples, dtype=np.int32)\<close> counts up from 0 in \<open>int32\<close>: element \<open>i\<close> is
  \<open>i\<close> reduced to 32 bits, which is \<open>i\<close> itself below \<open>2^31\<close> and wraps from there on.
\<close>

definition arange :: "int \<Rightarrow> int32 list" where
  "arange n = map of_int [0..n - 1]"

text \<open>
  A slice bound: a negative bound counts from the end, and both ends are clamped to the
  array.
\<close>

definition slice_bound :: "int \<Rightarrow> nat \<Rightarrow> nat" where
  "slice_bound i len = (if i < 0 then nat (max 0 (i + int len)) else min (nat i) len)"

definition slice_to :: "'a list \<Rightarrow> int \<Rightarrow> 'a list" where
  "slice_to xs stop = take (slice_bound stop (length xs)) xs"

definition slice_from :: "'a list \<Rightarrow> int \<Rightarrow> 'a list" where
  "slice_from xs start = drop (slice_bound start (length xs)) xs"

definition slice :: "'a list \<Rightarrow> int \<Rightarrow> int \<Rightarrow> 'a list" where
  "slice xs start stop =
     (let a = slice_bound start (length xs); b = slice_bound stop (length xs)
      in take (b - a) (drop a xs))"

text \<open>
  Lines 93 and 94: an \<open>int32\<close> array of \<open>folds\<close> copies of \<open>n_samples // folds\<close>, the
  first \<open>n_samples % folds\<close> of them incremented in place.
\<close>

definition fold_sizes :: "int \<Rightarrow> int \<Rightarrow> int32 list" where
  "fold_sizes n_samples folds =
     (let fs = replicate (nat folds) (of_int (n_samples div folds));
          k = slice_bound (n_samples mod folds) (length fs)
      in map (\<lambda>s. s + 1) (take k fs) @ drop k fs)"

text \<open>
  Lines 95 to 99. \<open>current\<close> starts as the Python integer 0, and \<open>current + fold_size\<close>
  adds the value of the \<open>int32\<close> element to it.
\<close>

fun kfold_loop :: "int32 list \<Rightarrow> int \<Rightarrow> int32 list \<Rightarrow> fold_item list" where
  "kfold_loop indices current [] = []"
| "kfold_loop indices current (fold_size # rest) =
     (let start = current; stop = current + sint fold_size
      in TrainTest (slice_to indices start @ slice_from indices stop)
                   (slice indices start stop)
         # kfold_loop indices stop rest)"

definition kfold_repaired ::
  "(int32 list \<Rightarrow> int32 list) \<Rightarrow> int \<Rightarrow> int \<Rightarrow> fold_item list" where
  "kfold_repaired shuffle n_samples folds =
     (let indices = arange n_samples in
      if folds < 2 then [Indices indices]
      else kfold_loop (shuffle indices) 0 (fold_sizes n_samples folds))"

text \<open>
  The function as written: line 87 does not parse, the module is refused when it is
  compiled, and no call of \<open>kfold\<close> yields anything, whatever its arguments.
\<close>

definition kfold ::
  "(int32 list \<Rightarrow> int32 list) \<Rightarrow> int \<Rightarrow> int \<Rightarrow> error + fold_item list" where
  "kfold shuffle n_samples folds = Inl SyntaxError"

subsection \<open>The relabelling loop of the prediction branch (lines 144 to 149)\<close>

text \<open>
  \<open>labels[y]\<close> is evaluated before the store into \<open>tokens\<close>; the label table is a lookup
  that may fail. The loop prints one record per pair of \<open>zip\<close>, so the state is the
  list of records printed so far, and an exception leaves what was printed before it.
\<close>

definition relabel_line :: "(int \<rightharpoonup> string) \<Rightarrow> int \<Rightarrow> string \<Rightarrow> int \<Rightarrow> error + string" where
  "relabel_line labels tagField line y =
     (let tokens = split_sep tab line in
      case labels y of
        None \<Rightarrow> Inl LookupError
      | Some l \<Rightarrow>
          (case set_item tokens tagField l of
             Inl e \<Rightarrow> Inl e
           | Inr tokens' \<Rightarrow> Inr (join_sep tab tokens')))"

fun relabel_loop ::
  "(int \<rightharpoonup> string) \<Rightarrow> int \<Rightarrow> (string \<times> int) list \<Rightarrow> string list
     \<Rightarrow> string list \<times> error option" where
  "relabel_loop labels tagField [] printed = (printed, None)"
| "relabel_loop labels tagField ((line, y) # rest) printed =
     (case relabel_line labels tagField line y of
        Inl e \<Rightarrow> (printed, Some e)
      | Inr record \<Rightarrow> relabel_loop labels tagField rest (printed @ [record]))"

definition relabel ::
  "(int \<rightharpoonup> string) \<Rightarrow> int \<Rightarrow> string list \<Rightarrow> int list \<Rightarrow> string list \<times> error option" where
  "relabel labels tagField lines results =
     relabel_loop labels tagField (zip lines results) []"

subsection \<open>Saving and loading the artifact (lines 217 to 220, 137 to 139)\<close>

text \<open>
  The file is the sequence of its bytes; \<open>open(model, "wb")\<close> starts from the empty
  file and each write appends. What \<open>cnn.save\<close> and \<open>pickle.dump\<close> write, and what
  \<open>ConvNet.load\<close> and \<open>pickle.load\<close> read and leave unread, belongs to
  \<open>conv_net_classes\<close> and to the pickle library: they are parameters.
\<close>

definition save :: "('m \<Rightarrow> 'b list) \<Rightarrow> ('meta \<Rightarrow> 'b list) \<Rightarrow> 'm \<Rightarrow> 'meta \<Rightarrow> 'b list" where
  "save cnn_save pickle_dump cnn meta =
     (let mfile = [];
          mfile = mfile @ cnn_save cnn;
          mfile = mfile @ pickle_dump meta
      in mfile)"

definition load ::
  "('b list \<Rightarrow> error + 'm \<times> 'b list) \<Rightarrow> ('b list \<Rightarrow> error + 'meta \<times> 'b list) \<Rightarrow> 'b list
     \<Rightarrow> error + 'm \<times> 'meta" where
  "load convnet_load pickle_load mfile =
     (case convnet_load mfile of
        Inl e \<Rightarrow> Inl e
      | Inr (cnn, rest) \<Rightarrow>
          (case pickle_load rest of
             Inl e \<Rightarrow> Inl e
           | Inr (meta, rest') \<Rightarrow> Inr (cnn, meta)))"

text \<open>
  A serialiser pair used to run the round trip on a concrete artifact: a value is
  written as one stream element, and read back from the head of the stream.
\<close>

definition dump_left :: "'a \<Rightarrow> ('a + 'b) list" where
  "dump_left v = [Inl v]"

definition load_left :: "('a + 'b) list \<Rightarrow> error + 'a \<times> ('a + 'b) list" where
  "load_left s = (case s of Inl v # rest \<Rightarrow> Inr (v, rest) | _ \<Rightarrow> Inl LoadError)"

definition dump_right :: "'b \<Rightarrow> ('a + 'b) list" where
  "dump_right v = [Inr v]"

definition load_right :: "('a + 'b) list \<Rightarrow> error + 'b \<times> ('a + 'b) list" where
  "load_right s = (case s of Inr v # rest \<Rightarrow> Inr (v, rest) | _ \<Rightarrow> Inl LoadError)"

subsection \<open>The cross-validation loop (lines 222 to 248)\<close>

text \<open>
  \<open>train_fold, test_fold = folds.next()\<close> takes the next item of the generator and
  unpacks it into two: a pair gives its two arrays, a bare array gives its two elements
  when it has exactly two and raises \<open>ValueError\<close> otherwise.
\<close>

datatype fold_arg = IndexArray "int32 list" | IndexScalar int32

definition unpack2 :: "fold_item \<Rightarrow> error + fold_arg \<times> fold_arg" where
  "unpack2 item =
     (case item of
        TrainTest tr te \<Rightarrow> Inr (IndexArray tr, IndexArray te)
      | Indices xs \<Rightarrow>
          (case xs of
             [a, b] \<Rightarrow> Inr (IndexScalar a, IndexScalar b)
           | _ \<Rightarrow> Inl ValueError))"

text \<open>
  \<open>train[train_fold]\<close> at line 242: \<open>train\<close> is a Python list (line 181), and a list takes
  as subscript an integer or what converts to one. An \<open>int32\<close> scalar does; an array
  does only when it holds exactly one element, and any other array raises \<open>TypeError\<close>.
\<close>

definition list_subscript :: "'a list \<Rightarrow> fold_arg \<Rightarrow> error + 'a" where
  "list_subscript xs idx =
     (case idx of
        IndexScalar k \<Rightarrow> get_item xs (sint k)
      | IndexArray ks \<Rightarrow>
          (case ks of
             [k] \<Rightarrow> get_item xs (sint k)
           | _ \<Rightarrow> Inl TypeError))"

text \<open>
  One round of the loop: the network and the updater are built (lines 233 to 241, the
  parameter \<open>build\<close>, which gets the fold number), the argument \<open>train[train_fold]\<close> is
  evaluated, and \<open>cnn.train\<close> is called on it (the parameter \<open>fit\<close>), giving the accuracy
  of the fold or failing. Accuracies are values of the network's own type \<open>'p\<close>, and
  \<open>np.mean\<close> is the parameter \<open>mean\<close>.
\<close>

fun cv_loop ::
  "(nat \<Rightarrow> error + 'net) \<Rightarrow> ('net \<Rightarrow> 'a \<Rightarrow> error + 'p) \<Rightarrow> 'a list \<Rightarrow> nat list
     \<Rightarrow> fold_item list \<Rightarrow> 'p list \<Rightarrow> error + 'p list" where
  "cv_loop build fit train [] folds results = Inr results"
| "cv_loop build fit train (i # is) folds results =
     (case folds of
        [] \<Rightarrow> Inl StopIteration
      | item # folds' \<Rightarrow>
          (case unpack2 item of
             Inl e \<Rightarrow> Inl e
           | Inr (train_fold, test_fold) \<Rightarrow>
               (case build i of
                  Inl e \<Rightarrow> Inl e
                | Inr cnn \<Rightarrow>
                    (case list_subscript train train_fold of
                       Inl e \<Rightarrow> Inl e
                     | Inr rows \<Rightarrow>
                         (case fit cnn rows of
                            Inl e \<Rightarrow> Inl e
                          | Inr perf \<Rightarrow>
                              cv_loop build fit train is folds' (results @ [perf]))))))"

text \<open>
  Lines 230 to 248 for a given generator: the loop over \<open>range(cv)\<close>, then the mean of
  the collected accuracies. A generator that cannot be made gives its error.
\<close>

definition cv_report ::
  "(nat \<Rightarrow> error + 'net) \<Rightarrow> ('net \<Rightarrow> 'a \<Rightarrow> error + 'p) \<Rightarrow> ('p list \<Rightarrow> 'p) \<Rightarrow> 'a list
     \<Rightarrow> int \<Rightarrow> error + fold_item list \<Rightarrow> error + 'p" where
  "cv_report build fit mean train cv generator =
     (case generator of
        Inl e \<Rightarrow> Inl e
      | Inr folds \<Rightarrow>
          (case cv_loop build fit train [0..<nat cv] folds [] of
             Inl e \<Rightarrow> Inl e
           | Inr results \<Rightarrow> Inr (mean results)))"

text \<open>
  Lines 226 to 230 with \<open>kfold\<close> as it is written. \<open>train\<close> has one row per sentence, so
  \<open>len(sents)\<close> is its length.
\<close>

definition cross_validate ::
  "(int32 list \<Rightarrow> int32 list) \<Rightarrow> (nat \<Rightarrow> error + 'net) \<Rightarrow> ('net \<Rightarrow> 'a \<Rightarrow> error + 'p)
     \<Rightarrow> ('p list \<Rightarrow> 'p) \<Rightarrow> 'a list \<Rightarrow> int \<Rightarrow> error + 'p" where
  "cross_validate shuffle build fit mean train args_cv =
     (let cv = (if args_cv < 2 then 1 else args_cv)
      in cv_report build fit mean train cv (kfold shuffle (int (length train)) cv))"

section \<open>Properties of the sentence encoder\<close>

lemma sent_loop_eq:
  "sent_loop sent word_index max_l x =
     x @ take (nat (max_l - int (length x))) (List.map_filter word_index sent)"
proof (induction sent arbitrary: x)
  case Nil
  show ?case by (simp add: List.map_filter_simps)
next
  case (Cons word sent)
  show ?case
  proof (cases "word_index word")
    case None
    then show ?thesis using Cons.IH [of x] by (simp add: List.map_filter_simps)
  next
    case (Some i)
    show ?thesis
    proof (cases "int (length x) < max_l")
      case True
      then obtain k where k: "nat (max_l - int (length x)) = Suc k"
        by (metis Suc_pred' zero_less_nat_eq diff_gt_0_iff_gt)
      have k': "nat (max_l - int (length (x @ [i]))) = k"
        using k by simp
      show ?thesis
        using Some True Cons.IH [of "x @ [i]"] k k'
        by (simp add: List.map_filter_simps)
    next
      case False
      then show ?thesis using Some by (simp add: List.map_filter_simps)
    qed
  qed
qed

lemma length_sent_loop_le:
  "int (length (sent_loop sent word_index max_l x)) \<le> max (int (length x)) max_l"
proof -
  let ?k = "nat (max_l - int (length x))"
  have "length (take ?k (List.map_filter word_index sent)) \<le> ?k"
    by simp
  then have "int (length x) + int (length (take ?k (List.map_filter word_index sent)))
      \<le> max (int (length x)) max_l"
    by linarith
  then show ?thesis
    by (simp only: sent_loop_eq length_append of_nat_add)
qed

text \<open>
  Claim C2. For every token sequence, dictionary, \<open>max_l \<ge> 0\<close> and \<open>pad \<ge> 0\<close> the list
  returned by \<open>sent2indices\<close> has exactly \<open>max_l + 2 * pad\<close> elements, and the number of
  right-padding zeros, \<open>max_l + 2 * pad - len(x)\<close>, is not negative, so the clamp
  \<open>max(0, ...)\<close> never changes it.
\<close>

theorem sent2indices_length:
  assumes "0 \<le> max_l" and "0 \<le> pad"
  shows "int (length (sent2indices sent word_index max_l pad)) = max_l + 2 * pad
    \<and> 0 \<le> max_l + 2 * pad
          - int (length (sent_loop sent word_index max_l (replicate (nat pad) 0)))"
proof -
  let ?x = "sent_loop sent word_index max_l (replicate (nat pad) 0)"
  have "int (length ?x) \<le> max (int (length (replicate (nat pad) (0::int)))) max_l"
    by (rule length_sent_loop_le)
  then have le: "int (length ?x) \<le> max_l + 2 * pad"
    using assms by (simp add: max_def split: if_splits)
  then show ?thesis
    by (simp add: sent2indices_def Let_def)
qed

theorem sent2indices_length_witness:
  "int (length (sent2indices [''hello'', ''there'', ''world'']
          [''hello'' \<mapsto> 1, ''world'' \<mapsto> 2] 5 1)) = 5 + 2 * 1
   \<and> 0 \<le> (5::int) + 2 * 1
          - int (length (sent_loop [''hello'', ''there'', ''world'']
              [''hello'' \<mapsto> 1, ''world'' \<mapsto> 2] 5 (replicate (nat 1) 0)))"
  using sent2indices_length [of 5 1 "[''hello'', ''there'', ''world'']"
      "[''hello'' \<mapsto> 1, ''world'' \<mapsto> 2]"]
  by simp

text \<open>
  Claim C9. Whatever the input, the first \<open>pad\<close> elements of the list returned by
  \<open>sent2indices\<close> are 0; and when no word of the sentence is in the dictionary, every
  element of the returned list is 0 (the function returns, it does not fail).
\<close>

theorem sent2indices_left_pad_zero:
  "take (nat pad) (sent2indices sent word_index max_l pad) = replicate (nat pad) 0
   \<and> ((\<forall>word \<in> set sent. word_index word = None) \<longrightarrow>
        sent2indices sent word_index max_l pad
          = replicate (length (sent2indices sent word_index max_l pad)) 0)"
proof
  show "take (nat pad) (sent2indices sent word_index max_l pad) = replicate (nat pad) 0"
    by (simp add: sent2indices_def Let_def sent_loop_eq)
next
  show "(\<forall>word \<in> set sent. word_index word = None) \<longrightarrow>
        sent2indices sent word_index max_l pad
          = replicate (length (sent2indices sent word_index max_l pad)) 0"
  proof
    assume oov: "\<forall>word \<in> set sent. word_index word = None"
    then have "filter (\<lambda>w. word_index w \<noteq> None) sent = []"
      by (simp add: filter_empty_conv)
    then have "List.map_filter word_index sent = []"
      by (simp add: List.map_filter_def)
    then show "sent2indices sent word_index max_l pad
          = replicate (length (sent2indices sent word_index max_l pad)) 0"
      by (simp add: sent2indices_def Let_def sent_loop_eq replicate_add [symmetric])
  qed
qed

theorem sent2indices_left_pad_zero_witness:
  "take (nat 2) (sent2indices [''foo'', ''bar''] [''hello'' \<mapsto> 1] 3 2) = [0, 0]
   \<and> sent2indices [''foo'', ''bar''] [''hello'' \<mapsto> 1] 3 2 = [0, 0, 0, 0, 0, 0, 0]"
proof -
  have oov: "\<forall>word \<in> set [''foo'', ''bar'']. [''hello'' \<mapsto> (1::int)] word = None"
    by simp
  have len: "length (sent2indices [''foo'', ''bar''] [''hello'' \<mapsto> 1] 3 2) = 7"
    by (simp add: sent2indices_def)
  have seven: "replicate 7 (0::int) = [0, 0, 0, 0, 0, 0, 0]"
    by (simp add: numeral_eq_Suc)
  have two: "replicate (nat 2) (0::int) = [0, 0]"
    by (simp add: numeral_eq_Suc)
  show ?thesis
    using sent2indices_left_pad_zero [of 2 "[''foo'', ''bar'']" "[''hello'' \<mapsto> 1]" 3]
      oov len seven two
    by simp
qed

text \<open>
  Claim C10. The returned list is the left padding, then a prefix of the indices of the
  known words of the sentence taken in the order of the sentence
  (\<open>List.map_filter word_index sent\<close>, which is the dictionary applied to the words it
  knows), then zeros. So the content keeps the order of the input, an index occurs again
  only where its word does, and every non-zero element of the result is the index of a
  word of the sentence.
\<close>

theorem sent2indices_content_order:
  "sent2indices sent word_index max_l pad =
     replicate (nat pad) 0
     @ take (nat (max_l - int (nat pad))) (List.map_filter word_index sent)
     @ replicate (length (sent2indices sent word_index max_l pad) - nat pad
         - length (take (nat (max_l - int (nat pad))) (List.map_filter word_index sent))) 0
   \<and> prefix (take (nat (max_l - int (nat pad))) (List.map_filter word_index sent))
        (map (the \<circ> word_index) (filter (\<lambda>word. word_index word \<noteq> None) sent))
   \<and> (\<forall>v \<in> set (sent2indices sent word_index max_l pad).
        v \<noteq> 0 \<longrightarrow> (\<exists>word \<in> set sent. word_index word = Some v))"
proof (intro conjI)
  let ?c = "take (nat (max_l - int (nat pad))) (List.map_filter word_index sent)"
  have res: "sent2indices sent word_index max_l pad =
      replicate (nat pad) 0 @ ?c
      @ replicate (nat (max 0 (max_l + 2 * pad - int (nat pad + length ?c)))) 0"
    by (simp add: sent2indices_def Let_def sent_loop_eq)
  then have "length (sent2indices sent word_index max_l pad) - nat pad - length ?c
      = nat (max 0 (max_l + 2 * pad - int (nat pad + length ?c)))"
    by simp
  with res show "sent2indices sent word_index max_l pad =
     replicate (nat pad) 0 @ ?c
     @ replicate (length (sent2indices sent word_index max_l pad) - nat pad - length ?c) 0"
    by simp
  show "prefix ?c (map (the \<circ> word_index) (filter (\<lambda>word. word_index word \<noteq> None) sent))"
    by (simp add: List.map_filter_def take_is_prefix)
  show "\<forall>v \<in> set (sent2indices sent word_index max_l pad).
        v \<noteq> 0 \<longrightarrow> (\<exists>word \<in> set sent. word_index word = Some v)"
  proof (intro ballI impI)
    fix v
    assume v: "v \<in> set (sent2indices sent word_index max_l pad)" and nz: "v \<noteq> 0"
    from v res have "v \<in> set (replicate (nat pad) 0) \<or> v \<in> set ?c
        \<or> v \<in> set (replicate (nat (max 0 (max_l + 2 * pad - int (nat pad + length ?c)))) (0::int))"
      by (metis Un_iff set_append)
    with nz have "v \<in> set ?c"
      by (auto simp: set_replicate_conv_if split: if_splits)
    then have "v \<in> set (List.map_filter word_index sent)"
      by (rule in_set_takeD)
    then show "\<exists>word \<in> set sent. word_index word = Some v"
      by (auto simp: List.map_filter_def)
  qed
qed

theorem sent2indices_content_order_witness:
  "(2::int) \<in> set (sent2indices [''b'', ''x'', ''a'', ''b''] [''a'' \<mapsto> 1, ''b'' \<mapsto> 2] 4 1)
   \<and> (2::int) \<noteq> 0
   \<and> (\<exists>word \<in> set [''b'', ''x'', ''a'', ''b'']. [''a'' \<mapsto> 1, ''b'' \<mapsto> (2::int)] word = Some 2)
   \<and> sent2indices [''b'', ''x'', ''a'', ''b''] [''a'' \<mapsto> 1, ''b'' \<mapsto> 2] 4 1 = [0, 2, 1, 2, 0, 0]"
proof -
  have r: "sent2indices [''b'', ''x'', ''a'', ''b''] [''a'' \<mapsto> 1, ''b'' \<mapsto> 2] 4 1 = [0, 2, 1, 2, 0, 0]"
    by (simp add: sent2indices_def numeral_eq_Suc)
  show ?thesis
    using sent2indices_content_order [of "[''b'', ''x'', ''a'', ''b'']"
        "[''a'' \<mapsto> 1, ''b'' \<mapsto> 2]" 4 1] r
    by simp
qed

text \<open>
  Claim C3. The test of line 35 compares \<open>len(x)\<close> with \<open>max_l\<close>, and \<open>x\<close> starts as
  the left padding: with \<open>pad = 1\<close>, \<open>max_l = 2\<close> and two known words, the second word
  meets \<open>len(x) = 2\<close> and is dropped. The result holds one content position, not two.
\<close>

theorem sent2indices_truncates_at_total_length:
  "sent2indices [''a'', ''b''] [''a'' \<mapsto> 1, ''b'' \<mapsto> 2] 2 1 = [0, 1, 0, 0]"
  by (simp add: sent2indices_def numeral_eq_Suc)

section \<open>Properties of the fold generator\<close>

lemma kfold_repaired_below_two:
  "folds < 2 \<Longrightarrow> kfold_repaired shuffle n folds = [Indices (arange n)]"
  by (simp add: kfold_repaired_def)

lemma length_kfold_loop: "length (kfold_loop indices current sizes) = length sizes"
  by (induction sizes arbitrary: current) (simp_all add: Let_def)

lemma kfold_loop_all_pairs: "list_all is_pair (kfold_loop indices current sizes)"
  by (induction sizes arbitrary: current) (simp_all add: Let_def)

lemma slice_in_range:
  assumes "0 \<le> start" and "0 \<le> k" and "start + k \<le> int (length xs)"
  shows "slice xs start (start + k) = take (nat k) (drop (nat start) xs)"
proof -
  have a: "slice_bound start (length xs) = nat start"
    using assms by (simp add: slice_bound_def)
  have b: "slice_bound (start + k) (length xs) = nat start + nat k"
    using assms by (simp add: slice_bound_def nat_add_distrib)
  show ?thesis by (simp add: slice_def Let_def a b)
qed

lemma kfold_loop_tests:
  assumes "\<forall>s \<in> set sizes. 0 \<le> sint s" and "0 \<le> current"
    and "current + sum_list (map sint sizes) \<le> int (length indices)"
  shows "concat (map test_of (kfold_loop indices current sizes))
           = take (nat (sum_list (map sint sizes))) (drop (nat current) indices)
       \<and> map (\<lambda>item. int (length (test_of item))) (kfold_loop indices current sizes)
           = map sint sizes"
  using assms
proof (induction sizes arbitrary: current)
  case Nil
  show ?case by simp
next
  case (Cons s rest)
  let ?s = "sint s" and ?rest = "sum_list (map sint rest)"
  have s0: "0 \<le> ?s" and rest0: "\<forall>r \<in> set rest. 0 \<le> sint r"
    using Cons.prems(1) by simp_all
  have sum0: "0 \<le> ?rest"
    using rest0 by (intro sum_list_nonneg) auto
  have bound: "current + ?s \<le> int (length indices)"
    using Cons.prems(3) sum0 by simp
  have sl: "slice indices current (current + ?s) = take (nat ?s) (drop (nat current) indices)"
    using Cons.prems(2) s0 bound by (rule slice_in_range)
  have IH: "concat (map test_of (kfold_loop indices (current + ?s) rest))
           = take (nat ?rest) (drop (nat (current + ?s)) indices)
       \<and> map (\<lambda>item. int (length (test_of item))) (kfold_loop indices (current + ?s) rest)
           = map sint rest"
    using Cons.IH [of "current + ?s"] rest0 Cons.prems(2,3) s0 by (simp add: add.assoc)
  have len: "int (length (take (nat ?s) (drop (nat current) indices))) = ?s"
    using s0 bound Cons.prems(2) by simp
  have split: "take (nat (?s + ?rest)) (drop (nat current) indices)
      = take (nat ?s) (drop (nat current) indices)
        @ take (nat ?rest) (drop (nat (current + ?s)) indices)"
    using s0 sum0 Cons.prems(2)
    by (simp add: nat_add_distrib take_add add.commute)
  show ?case
    using IH sl len split by (simp add: Let_def)
qed

lemma sint_of_int_int32:
  assumes "- (2 ^ 31) \<le> k" and "k < 2 ^ 31"
  shows "sint (of_int k :: int32) = k"
  using assms by (simp add: signed_of_int signed_take_bit_int_eq_self)

lemma fold_sizes_eq:
  assumes "2 \<le> folds"
  shows "fold_sizes n folds
     = replicate (nat (n mod folds)) (of_int (n div folds) + 1)
       @ replicate (nat folds - nat (n mod folds)) (of_int (n div folds))"
proof -
  have m: "0 \<le> n mod folds" "n mod folds < folds"
    using assms by simp_all
  then have le: "nat (n mod folds) \<le> nat folds"
    by simp
  have k: "slice_bound (n mod folds) (length (replicate (nat folds) (of_int (n div folds) :: int32)))
      = nat (n mod folds)"
    using m min_absorb1 [OF le] by (simp add: slice_bound_def)
  show ?thesis
    unfolding fold_sizes_def Let_def k using min_absorb1 [OF le] by simp
qed

lemma length_fold_sizes:
  assumes "2 \<le> folds"
  shows "length (fold_sizes n folds) = nat folds"
proof -
  have "n mod folds < folds" using assms by simp
  then show ?thesis by (simp add: fold_sizes_eq [OF assms])
qed

lemma sint_fold_sizes:
  assumes "2 \<le> folds" and "0 \<le> n" and "n < 2 ^ 31"
  shows "map sint (fold_sizes n folds)
     = replicate (nat (n mod folds)) (n div folds + 1)
       @ replicate (nat folds - nat (n mod folds)) (n div folds)"
proof -
  have q0: "0 \<le> n div folds"
    using assms by (simp add: pos_imp_zdiv_nonneg_iff)
  have "n div folds \<le> n div 2"
    using assms by (intro zdiv_mono2) simp_all
  then have q1: "n div folds + 1 < 2 ^ 31"
    using assms(3) by simp
  have a: "sint (of_int (n div folds) :: int32) = n div folds"
    using q0 q1 by (intro sint_of_int_int32) simp_all
  have "sint (of_int (n div folds + 1) :: int32) = n div folds + 1"
    using q0 q1 by (intro sint_of_int_int32) simp_all
  then have b: "sint (of_int (n div folds) + 1 :: int32) = n div folds + 1"
    by simp
  show ?thesis
    by (simp add: fold_sizes_eq [OF assms(1)] a b)
qed

lemma sum_list_fold_sizes:
  assumes "2 \<le> folds" and "0 \<le> n" and "n < 2 ^ 31"
  shows "sum_list (map sint (fold_sizes n folds)) = n"
proof -
  have m: "0 \<le> n mod folds" "n mod folds < folds"
    using assms by simp_all
  have "sum_list (map sint (fold_sizes n folds))
      = int (nat (n mod folds)) * (n div folds + 1)
        + int (nat folds - nat (n mod folds)) * (n div folds)"
    by (simp add: sint_fold_sizes [OF assms] sum_list_replicate)
  also have "\<dots> = (n mod folds) * (n div folds + 1) + (folds - n mod folds) * (n div folds)"
  proof -
    have "nat (n mod folds) \<le> nat folds"
      using m by simp
    then have "int (nat folds - nat (n mod folds)) = folds - n mod folds"
      using m assms by (simp add: of_nat_diff)
    then show ?thesis using m by simp
  qed
  also have "\<dots> = folds * (n div folds) + n mod folds"
    by (simp add: algebra_simps)
  also have "\<dots> = n"
    by simp
  finally show ?thesis .
qed

lemma fold_sizes_nth:
  assumes "2 \<le> folds" and "0 \<le> n" and "n < 2 ^ 31" and "i < nat folds"
  shows "map sint (fold_sizes n folds) ! i
     = n div folds + (if int i < n mod folds then 1 else 0)"
proof -
  have m: "0 \<le> n mod folds" "n mod folds < folds"
    using assms by simp_all
  show ?thesis
    using assms(1,4) m by (auto simp: sint_fold_sizes [OF assms(1,2,3)] nth_append)
qed

lemma fold_sizes_nonneg:
  assumes "2 \<le> folds" and "0 \<le> n" and "n < 2 ^ 31"
  shows "\<forall>s \<in> set (fold_sizes n folds). 0 \<le> sint s"
proof -
  have "0 \<le> n div folds"
    using assms by (simp add: pos_imp_zdiv_nonneg_iff)
  then have "\<forall>v \<in> set (map sint (fold_sizes n folds)). 0 \<le> v"
    by (auto simp: sint_fold_sizes [OF assms])
  then show ?thesis by simp
qed

lemma sint_arange:
  assumes "n \<le> 2 ^ 31"
  shows "map sint (arange n) = [0..n - 1]"
proof -
  have "map (\<lambda>k. sint (of_int k :: int32)) [0..n - 1] = map (\<lambda>k. k) [0..n - 1]"
  proof (rule map_cong [OF refl])
    fix k
    assume "k \<in> set [0..n - 1]"
    then have "- (2 ^ 31) \<le> k" and "k < 2 ^ 31"
      using assms by simp_all
    then show "sint (of_int k :: int32) = k"
      by (rule sint_of_int_int32)
  qed
  then show ?thesis
    by (simp add: arange_def comp_def)
qed

lemma distinct_concat_disjoint:
  "distinct (concat xss) \<Longrightarrow> i < j \<Longrightarrow> j < length xss \<Longrightarrow> set (xss ! i) \<inter> set (xss ! j) = {}"
proof (induction xss arbitrary: i j)
  case Nil
  then show ?case by simp
next
  case (Cons xs xss)
  obtain j' where j: "j = Suc j'"
    using Cons.prems(2) by (cases j) simp_all
  show ?case
  proof (cases i)
    case 0
    have "xss ! j' \<in> set xss"
      using Cons.prems(3) j by simp
    then show ?thesis
      using Cons.prems(1) 0 j by auto
  next
    case (Suc i')
    then show ?thesis
      using Cons.IH [of i' j'] Cons.prems j by simp
  qed
qed

lemma kfold_repaired_eval_5_3:
  "kfold_repaired rev 5 3
     = [TrainTest [2, 1, 0] [4, 3], TrainTest [4, 3, 0] [2, 1], TrainTest [4, 3, 2, 1] [0]]"
  by (simp add: kfold_repaired_def arange_def fold_sizes_def slice_bound_def slice_def
      slice_to_def slice_from_def upto.simps numeral_eq_Suc)


text \<open>
  What the function does once line 87 parses. For \<open>0 \<le> n < 2^31\<close> and \<open>folds \<ge> 2\<close>,
  when the shuffle returns a permutation of the index array: \<open>folds\<close> items are
  yielded, all of them pairs; no index occurs twice among the test arrays, so two
  different test arrays are disjoint; together the test arrays hold exactly
  \<open>0, ..., n - 1\<close>; test array \<open>i\<close> has \<open>n div folds\<close> elements, one more when
  \<open>i < n mod folds\<close>; and the sizes sum to \<open>n\<close>. The bound on \<open>n\<close> keeps every index
  and every fold size inside \<open>int32\<close>.
\<close>

lemma kfold_repaired_partition:
  assumes "0 \<le> n" and "n < 2 ^ 31" and "2 \<le> folds"
    and "mset (shuffle (arange n)) = mset (arange n)"
  shows "length (kfold_repaired shuffle n folds) = nat folds
    \<and> list_all is_pair (kfold_repaired shuffle n folds)
    \<and> distinct (concat (map test_of (kfold_repaired shuffle n folds)))
    \<and> (\<forall>i j. i < j \<and> j < nat folds \<longrightarrow>
          set (test_of (kfold_repaired shuffle n folds ! i))
            \<inter> set (test_of (kfold_repaired shuffle n folds ! j)) = {})
    \<and> (\<Union>item \<in> set (kfold_repaired shuffle n folds). sint ` set (test_of item)) = {0..n - 1}
    \<and> (\<forall>i < nat folds.
          int (length (test_of (kfold_repaired shuffle n folds ! i)))
            = n div folds + (if int i < n mod folds then 1 else 0))
    \<and> (\<Sum>item \<leftarrow> kfold_repaired shuffle n folds. int (length (test_of item))) = n"
proof -
  let ?sh = "shuffle (arange n)"
  let ?ys = "kfold_repaired shuffle n folds"
  let ?tests = "map test_of ?ys"
  have n31: "n \<le> 2 ^ 31"
    using assms(2) by simp
  have ys: "?ys = kfold_loop ?sh 0 (fold_sizes n folds)"
    using assms(3) by (simp add: kfold_repaired_def Let_def)
  have "size (mset ?sh) = size (mset (arange n))"
    using assms(4) by simp
  then have len_sh: "int (length ?sh) = n"
    using assms(1) by (simp add: arange_def)
  have "distinct (map sint (arange n))"
    by (simp add: sint_arange [OF n31])
  then have "distinct (arange n)"
    by (simp add: distinct_map)
  then have dist_sh: "distinct ?sh"
    using assms(4) by (metis mset_eq_imp_distinct_iff)
  have "set ?sh = set (arange n)"
    using assms(4) by (rule mset_eq_setD)
  then have "sint ` set ?sh = set (map sint (arange n))"
    by simp
  then have set_sh: "sint ` set ?sh = {0..n - 1}"
    by (simp add: sint_arange [OF n31])
  have len_ys: "length ?ys = nat folds"
    by (simp add: ys length_kfold_loop length_fold_sizes [OF assms(3)])
  have pairs: "list_all is_pair ?ys"
    by (simp add: ys kfold_loop_all_pairs)
  have total_sizes: "sum_list (map sint (fold_sizes n folds)) = n"
    using assms(3,1,2) by (rule sum_list_fold_sizes)
  have loop: "concat (map test_of (kfold_loop ?sh 0 (fold_sizes n folds)))
           = take (nat (sum_list (map sint (fold_sizes n folds)))) (drop (nat 0) ?sh)
       \<and> map (\<lambda>item. int (length (test_of item))) (kfold_loop ?sh 0 (fold_sizes n folds))
           = map sint (fold_sizes n folds)"
  proof (rule kfold_loop_tests)
    show "\<forall>s \<in> set (fold_sizes n folds). 0 \<le> sint s"
      using assms(3,1,2) by (rule fold_sizes_nonneg)
    show "(0::int) \<le> 0" by simp
    show "0 + sum_list (map sint (fold_sizes n folds)) \<le> int (length ?sh)"
      by (simp only: total_sizes len_sh)
  qed
  have concat_tests: "concat ?tests = ?sh"
    using loop len_sh by (simp add: ys total_sizes)
  have sizes: "map (\<lambda>item. int (length (test_of item))) ?ys = map sint (fold_sizes n folds)"
    using loop by (simp add: ys)
  have dist: "distinct (concat ?tests)"
    by (simp only: concat_tests dist_sh)
  have disj: "\<forall>i j. i < j \<and> j < nat folds \<longrightarrow>
      set (test_of (?ys ! i)) \<inter> set (test_of (?ys ! j)) = {}"
  proof (intro allI impI)
    fix i j
    assume ij: "i < j \<and> j < nat folds"
    then have "set (?tests ! i) \<inter> set (?tests ! j) = {}"
      using distinct_concat_disjoint [OF dist, of i j] len_ys by simp
    then show "set (test_of (?ys ! i)) \<inter> set (test_of (?ys ! j)) = {}"
      using ij len_ys by simp
  qed
  have "sint ` set (concat ?tests) = {0..n - 1}"
    by (simp only: concat_tests set_sh)
  then have union: "(\<Union>item \<in> set ?ys. sint ` set (test_of item)) = {0..n - 1}"
    by (simp add: image_UN)
  have nth: "\<forall>i < nat folds.
      int (length (test_of (?ys ! i))) = n div folds + (if int i < n mod folds then 1 else 0)"
  proof (intro allI impI)
    fix i
    assume i: "i < nat folds"
    then have "map (\<lambda>item. int (length (test_of item))) ?ys ! i
        = int (length (test_of (?ys ! i)))"
      using len_ys by simp
    then show "int (length (test_of (?ys ! i)))
        = n div folds + (if int i < n mod folds then 1 else 0)"
      using fold_sizes_nth [OF assms(3,1,2) i] sizes by simp
  qed
  have total: "(\<Sum>item \<leftarrow> ?ys. int (length (test_of item))) = n"
    using sizes total_sizes by simp
  show ?thesis
    using len_ys pairs dist disj union nth total by blast
qed

lemma kfold_repaired_partition_5_3:
  "length (kfold_repaired rev 5 3) = nat 3
   \<and> distinct (concat (map test_of (kfold_repaired rev 5 3)))
   \<and> (\<Union>item \<in> set (kfold_repaired rev 5 3). sint ` set (test_of item)) = {0..5 - 1}
   \<and> (\<Sum>item \<leftarrow> kfold_repaired rev 5 3. int (length (test_of item))) = 5"
proof -
  have h1: "(0::int) \<le> 5" and h2: "(5::int) < 2 ^ 31" and h3: "(2::int) \<le> 3"
    by simp_all
  have h4: "mset (rev (arange 5)) = mset (arange 5)"
    by simp
  show ?thesis
    using kfold_repaired_partition [of 5 3 rev, OF h1 h2 h3 h4] by blast
qed

text \<open>
  Claim C1. As written, \<open>kfold\<close> yields no fold at all: line 87 does not parse, and the
  call \<open>kfold(5, 3)\<close> ends in \<open>SyntaxError\<close> instead of three test arrays that split
  \<open>0, ..., 4\<close>. With the extra parenthesis of line 87 taken out, the same call yields
  test arrays of sizes 2, 2 and 1 that hold every index once.
\<close>

theorem kfold_does_not_compile:
  "kfold rev 5 3 = Inl SyntaxError
   \<and> kfold_repaired rev 5 3
       = [TrainTest [2, 1, 0] [4, 3], TrainTest [4, 3, 0] [2, 1], TrainTest [4, 3, 2, 1] [0]]"
  by (simp add: kfold_def kfold_repaired_eval_5_3)

text \<open>
  Claim C4. With \<open>folds < 2\<close> no pair of a train and a test array is yielded: as written
  the call ends in \<open>SyntaxError\<close>, and with line 87 repaired the generator yields one
  item, which is the bare index array of line 89. The caller at line 232 unpacks the item
  into two names, which raises \<open>ValueError\<close> for three samples.
\<close>

theorem kfold_single_fold_yields_bare_array:
  "kfold rev 3 1 = Inl SyntaxError
   \<and> kfold_repaired rev 3 1 = [Indices [0, 1, 2]]
   \<and> \<not> is_pair (hd (kfold_repaired rev 3 1))
   \<and> unpack2 (hd (kfold_repaired rev 3 1)) = Inl ValueError"
  by (simp add: kfold_def kfold_repaired_def arange_def upto.simps unpack2_def)

section \<open>Properties of the corpus reader\<close>

lemma read_corpus_one_row_per_line:
  "read_corpus f word_index max_l pad lower_flag textField = Inr corpus
     \<Longrightarrow> length corpus = length f"
proof (induction f arbitrary: corpus)
  case Nil
  then show ?case by simp
next
  case (Cons line f)
  then show ?case
    by (auto simp: Let_def split: sum.splits)
qed

text \<open>
  Claim C5. \<open>read_corpus\<close> gives one row per line, in the order of the lines, but the
  row is not \<open>sent2indices\<close> of the white-space tokens of the text field: line 62 passes
  the text itself, and the encoder walks its characters. On the record
  \<open>id<TAB>pos<TAB>hello world\<close> with the dictionary \<open>hello \<mapsto> 1, world \<mapsto> 2\<close>,
  \<open>max_l = 5\<close> and \<open>pad = 1\<close>, no character is a key of the dictionary and the row is
  all zeros, where the tokens give \<open>[0, 1, 2, 0, 0, 0, 0]\<close>.
\<close>

theorem read_corpus_iterates_characters:
  "read_corpus [''id'' @ [tab] @ ''pos'' @ [tab] @ ''hello world'' @ [CHR 0x0A]]
       [''hello'' \<mapsto> 1, ''world'' \<mapsto> 2] 5 1 True 2
     = Inr [[0, 0, 0, 0, 0, 0, 0]]
   \<and> read_corpus_words [''id'' @ [tab] @ ''pos'' @ [tab] @ ''hello world'' @ [CHR 0x0A]]
       [''hello'' \<mapsto> 1, ''world'' \<mapsto> 2] 5 1 True 2
     = Inr [[0, 1, 2, 0, 0, 0, 0]]"
  by (simp add: sent2indices_def tab_def strip_def is_space_def get_item_def position_def
      lower_def lower_char_def chars_of_def split_ws_def numeral_eq_Suc)

section \<open>Properties of the relabelling loop\<close>

lemma relabel_loop_printed:
  "relabel_loop labels tagField ps printed
     = (printed @ fst (relabel_loop labels tagField ps []),
        snd (relabel_loop labels tagField ps []))"
proof (induction ps arbitrary: printed)
  case Nil
  show ?case by simp
next
  case (Cons p ps)
  obtain line y where p: "p = (line, y)" by (cases p)
  show ?case
  proof (cases "relabel_line labels tagField line y")
    case (Inl e)
    then show ?thesis by (simp add: p)
  next
    case (Inr r)
    have a: "relabel_loop labels tagField ps (printed @ [r])
        = ((printed @ [r]) @ fst (relabel_loop labels tagField ps []),
           snd (relabel_loop labels tagField ps []))"
      by (rule Cons.IH)
    have b: "relabel_loop labels tagField ps ([] @ [r])
        = (([] @ [r]) @ fst (relabel_loop labels tagField ps []),
           snd (relabel_loop labels tagField ps []))"
      by (rule Cons.IH)
    show ?thesis using a b by (simp add: p Inr)
  qed
qed

lemma relabel_loop_positional:
  "i < length (fst (relabel_loop labels tagField ps []))
     \<Longrightarrow> i < length ps
       \<and> relabel_line labels tagField (fst (ps ! i)) (snd (ps ! i))
           = Inr (fst (relabel_loop labels tagField ps []) ! i)"
proof (induction ps arbitrary: i)
  case Nil
  then show ?case by simp
next
  case (Cons p ps)
  obtain line y where p: "p = (line, y)" by (cases p)
  show ?case
  proof (cases "relabel_line labels tagField line y")
    case (Inl e)
    then show ?thesis using Cons.prems by (simp add: p)
  next
    case (Inr r)
    have step: "relabel_loop labels tagField (p # ps) []
        = (r # fst (relabel_loop labels tagField ps []),
           snd (relabel_loop labels tagField ps []))"
      using relabel_loop_printed [of labels tagField ps "[r]"] by (simp add: p Inr)
    show ?thesis
    proof (cases i)
      case 0
      show ?thesis unfolding step using 0 by (simp add: p Inr)
    next
      case (Suc k)
      then have "k < length (fst (relabel_loop labels tagField ps []))"
        using Cons.prems by (simp add: step)
      then show ?thesis
        using Cons.IH [of k] by (simp add: step Suc)
    qed
  qed
qed

lemma relabel_loop_complete:
  "snd (relabel_loop labels tagField ps []) = None
     \<Longrightarrow> length (fst (relabel_loop labels tagField ps [])) = length ps"
proof (induction ps)
  case Nil
  show ?case by simp
next
  case (Cons p ps)
  obtain line y where p: "p = (line, y)" by (cases p)
  show ?case
  proof (cases "relabel_line labels tagField line y")
    case (Inl e)
    then show ?thesis using Cons.prems by (simp add: p)
  next
    case (Inr r)
    have step: "relabel_loop labels tagField (p # ps) []
        = (r # fst (relabel_loop labels tagField ps []),
           snd (relabel_loop labels tagField ps []))"
      using relabel_loop_printed [of labels tagField ps "[r]"] by (simp add: p Inr)
    show ?thesis using Cons by (simp add: step)
  qed
qed

text \<open>
  Claim C6, as stated, fails: with two input lines and one prediction the loop prints the
  first record and ends without an error.
\<close>

theorem relabel_mismatch_is_silent:
  "relabel [0 \<mapsto> ''neg'', 1 \<mapsto> ''pos''] 1
       [''1'' @ [tab] @ ''neg'' @ [tab] @ ''great movie'' @ [CHR 0x0A],
        ''2'' @ [tab] @ ''neg'' @ [tab] @ ''dull'' @ [CHR 0x0A]]
       [1]
     = ([''1'' @ [tab] @ ''pos'' @ [tab] @ ''great movie'' @ [CHR 0x0A]], None)"
  by (simp add: relabel_def relabel_line_def set_item_def position_def tab_def)

text \<open>
  Claim C6, amended. Predictions are zipped by position against the input lines: record
  \<open>i\<close> of the output is line \<open>i\<close> relabelled with prediction \<open>i\<close>. The loop sees only the
  first \<open>min (number of lines) (number of predictions)\<close> pairs, whatever follows in the
  longer sequence has no effect, and when no line fails the output has exactly that many
  records and no error is raised for the mismatch.
\<close>

theorem relabel_zip_positional:
  "relabel labels tagField lines results
     = relabel labels tagField (take (min (length lines) (length results)) lines)
         (take (min (length lines) (length results)) results)
   \<and> (\<forall>i < length (fst (relabel labels tagField lines results)).
         i < min (length lines) (length results)
         \<and> relabel_line labels tagField (lines ! i) (results ! i)
             = Inr (fst (relabel labels tagField lines results) ! i))
   \<and> (snd (relabel labels tagField lines results) = None \<longrightarrow>
         length (fst (relabel labels tagField lines results))
           = min (length lines) (length results))"
proof (intro conjI allI impI)
  let ?m = "min (length lines) (length results)"
  have "zip (take ?m lines) (take ?m results) = take ?m (zip lines results)"
    by (simp add: take_zip)
  then have "zip (take ?m lines) (take ?m results) = zip lines results"
    by simp
  then show "relabel labels tagField lines results
     = relabel labels tagField (take ?m lines) (take ?m results)"
    by (simp add: relabel_def)
next
  fix i
  assume "i < length (fst (relabel labels tagField lines results))"
  then have i: "i < length (fst (relabel_loop labels tagField (zip lines results) []))"
    by (simp add: relabel_def)
  have r: "i < length (zip lines results)
       \<and> relabel_line labels tagField (fst (zip lines results ! i)) (snd (zip lines results ! i))
           = Inr (fst (relabel_loop labels tagField (zip lines results) []) ! i)"
    using i by (rule relabel_loop_positional)
  then show "i < min (length lines) (length results)"
    by simp
  have "zip lines results ! i = (lines ! i, results ! i)"
    using r by simp
  then show "relabel_line labels tagField (lines ! i) (results ! i)
             = Inr (fst (relabel labels tagField lines results) ! i)"
    using r by (simp only: relabel_def fst_conv snd_conv)
next
  assume "snd (relabel labels tagField lines results) = None"
  then have "snd (relabel_loop labels tagField (zip lines results) []) = None"
    by (simp add: relabel_def)
  then have "length (fst (relabel_loop labels tagField (zip lines results) []))
      = length (zip lines results)"
    by (rule relabel_loop_complete)
  then show "length (fst (relabel labels tagField lines results))
      = min (length lines) (length results)"
    by (simp add: relabel_def)
qed

theorem relabel_zip_positional_witness:
  "snd (relabel [0 \<mapsto> ''neg'', 1 \<mapsto> ''pos''] 1
       [''1'' @ [tab] @ ''neg'' @ [tab] @ ''great movie'' @ [CHR 0x0A],
        ''2'' @ [tab] @ ''neg'' @ [tab] @ ''dull'' @ [CHR 0x0A]]
       [1, 0]) = None
   \<and> length (fst (relabel [0 \<mapsto> ''neg'', 1 \<mapsto> ''pos''] 1
       [''1'' @ [tab] @ ''neg'' @ [tab] @ ''great movie'' @ [CHR 0x0A],
        ''2'' @ [tab] @ ''neg'' @ [tab] @ ''dull'' @ [CHR 0x0A]]
       [1, 0])) = min (length [''1'' @ [tab] @ ''neg'' @ [tab] @ ''great movie'' @ [CHR 0x0A],
        ''2'' @ [tab] @ ''neg'' @ [tab] @ ''dull'' @ [CHR 0x0A]]) (length [1, 0 :: int])"
proof -
  have ok: "snd (relabel [0 \<mapsto> ''neg'', 1 \<mapsto> ''pos''] 1
       [''1'' @ [tab] @ ''neg'' @ [tab] @ ''great movie'' @ [CHR 0x0A],
        ''2'' @ [tab] @ ''neg'' @ [tab] @ ''dull'' @ [CHR 0x0A]]
       [1, 0]) = None"
    by (simp add: relabel_def relabel_line_def set_item_def position_def tab_def)
  show ?thesis
    using relabel_zip_positional [of "[0 \<mapsto> ''neg'', 1 \<mapsto> ''pos'']" 1
        "[''1'' @ [tab] @ ''neg'' @ [tab] @ ''great movie'' @ [CHR 0x0A],
          ''2'' @ [tab] @ ''neg'' @ [tab] @ ''dull'' @ [CHR 0x0A]]" "[1, 0]"] ok
    by blast
qed

section \<open>Properties of saving and loading\<close>

lemma load_left_dump_left: "load_left (dump_left v @ rest) = Inr (v, rest)"
  by (simp add: load_left_def dump_left_def)

lemma load_right_dump_right: "load_right (dump_right v @ rest) = Inr (v, rest)"
  by (simp add: load_right_def dump_right_def)

text \<open>
  Claim C7. \<open>save\<close> writes what \<open>cnn.save\<close> writes and then the pickled tuple
  \<open>(word_index, max_l, pad, labels)\<close>; the prediction branch reads the network first and
  the tuple from what is left. When \<open>ConvNet.load\<close> consumes exactly what \<open>cnn.save\<close>
  wrote (whatever network it builds from it) and \<open>pickle.load\<close> returns what
  \<open>pickle.dump\<close> wrote, loading a saved artifact succeeds and gives back the same tuple,
  for every network, dictionary, \<open>max_l\<close>, \<open>pad\<close> and label table.
\<close>

theorem load_save_metadata:
  assumes "\<forall>cnn rest. \<exists>cnn'. convnet_load (cnn_save cnn @ rest) = Inr (cnn', rest)"
    and "\<forall>meta rest. pickle_load (pickle_dump meta @ rest) = Inr (meta, rest)"
  shows "\<exists>cnn'. load convnet_load pickle_load
            (save cnn_save pickle_dump cnn (word_index, max_l, pad, labels))
          = Inr (cnn', (word_index, max_l, pad, labels))"
proof -
  let ?meta = "(word_index, max_l, pad, labels)"
  have written: "save cnn_save pickle_dump cnn ?meta = cnn_save cnn @ pickle_dump ?meta"
    by (simp add: save_def)
  obtain cnn' where m: "convnet_load (cnn_save cnn @ pickle_dump ?meta)
      = Inr (cnn', pickle_dump ?meta)"
    using assms(1) by blast
  have "pickle_load (pickle_dump ?meta @ []) = Inr (?meta, [])"
    using assms(2) by blast
  then have p: "pickle_load (pickle_dump ?meta) = Inr (?meta, [])"
    by simp
  have "load convnet_load pickle_load (save cnn_save pickle_dump cnn ?meta) = Inr (cnn', ?meta)"
    by (simp add: written load_def m p)
  then show ?thesis ..
qed

theorem load_save_metadata_witness:
  "\<exists>cnn'. load load_left load_right
       (save dump_left dump_right (7::nat) ([''hello'' \<mapsto> (1::int)], 5::int, 1::int, [''neg'', ''pos'']))
     = Inr (cnn', ([''hello'' \<mapsto> 1], 5, 1, [''neg'', ''pos'']))"
proof -
  have h1: "\<forall>cnn rest. \<exists>cnn'. (load_left :: (nat + ((string \<rightharpoonup> int) \<times> int \<times> int \<times> string list)) list \<Rightarrow> _)
      (dump_left cnn @ rest) = Inr (cnn', rest)"
    by (simp add: load_left_dump_left)
  have h2: "\<forall>meta rest. (load_right :: (nat + ((string \<rightharpoonup> int) \<times> int \<times> int \<times> string list)) list \<Rightarrow> _)
      (dump_right meta @ rest) = Inr (meta, rest)"
    by (simp add: load_right_dump_right)
  show ?thesis
    using load_save_metadata [OF h1 h2] by blast
qed

section \<open>Properties of the cross-validation loop\<close>

lemma cv_loop_array_subscript:
  assumes "length tr \<noteq> 1"
  shows "cv_loop build fit train (i # is) (TrainTest tr te # folds) results
     = (case build i of Inl e \<Rightarrow> Inl e | Inr cnn \<Rightarrow> Inl TypeError)"
proof -
  have "list_subscript train (IndexArray tr) = Inl TypeError"
    using assms by (cases tr rule: list.exhaust; cases "tl tr") (auto simp: list_subscript_def)
  then show ?thesis
    by (simp add: unpack2_def split: sum.splits)
qed

text \<open>
  Claim C8. A run with five sentences and \<open>-cv 3\<close> reports no mean. As written it ends
  in the \<open>SyntaxError\<close> of \<open>kfold\<close>. With line 87 repaired, the first round builds the
  network and then subscripts the list \<open>train\<close> with the three-element array
  \<open>train_fold\<close> at line 242, which raises \<open>TypeError\<close>: line 248, which prints
  \<open>np.mean(results)\<close>, is never reached, whatever the network and \<open>np.mean\<close> do.
\<close>

theorem cross_validate_reports_no_mean:
  "cross_validate rev build fit mean [[1], [2], [3], [4], [5::int]] 3 = Inl SyntaxError
   \<and> cv_report build fit mean [[1], [2], [3], [4], [5::int]] 3 (Inr (kfold_repaired rev 5 3))
       = (case build 0 of Inl e \<Rightarrow> Inl e | Inr cnn \<Rightarrow> Inl TypeError)"
proof -
  let ?train = "[[1], [2], [3], [4], [5::int]]"
  have three: "[0..<3] = [0, 1, 2::nat]"
    by code_simp
  have first: "cv_loop build fit ?train [0, 1, 2]
        [TrainTest [2, 1, 0] [4, 3], TrainTest [4, 3, 0] [2, 1], TrainTest [4, 3, 2, 1] [0]] []
      = (case build 0 of Inl e \<Rightarrow> Inl e | Inr cnn \<Rightarrow> Inl TypeError)"
    by (rule cv_loop_array_subscript) simp
  have written: "cross_validate rev build fit mean ?train 3 = Inl SyntaxError"
    by (simp add: cross_validate_def cv_report_def kfold_def)
  have repaired: "cv_report build fit mean ?train 3 (Inr (kfold_repaired rev 5 3))
      = (case build 0 of Inl e \<Rightarrow> Inl e | Inr cnn \<Rightarrow> Inl TypeError)"
  proof -
    have "cv_report build fit mean ?train 3 (Inr (kfold_repaired rev 5 3))
        = (case cv_loop build fit ?train [0, 1, 2]
              [TrainTest [2, 1, 0] [4, 3], TrainTest [4, 3, 0] [2, 1],
               TrainTest [4, 3, 2, 1] [0]] [] of
             Inl e \<Rightarrow> Inl e
           | Inr results \<Rightarrow> Inr (mean results))"
      by (simp only: cv_report_def kfold_repaired_eval_5_3 nat_numeral three sum.case)
    then show ?thesis
      unfolding first by (cases "build 0") simp_all
  qed
  show ?thesis
    using written repaired by (rule conjI)
qed

end
